theory Spec2Isabelle
  imports Complex_Main "HOL-Library.Stream"
begin

section \<open>The simulation core of \<^verbatim>\<open>src/main.ts\<close>\<close>

text \<open>
  The embedding covers the simulation functions of \<^verbatim>\<open>main.ts\<close>: \<^verbatim>\<open>clamp\<close>,
  \<^verbatim>\<open>createEntity\<close>, \<^verbatim>\<open>changeEntityElement\<close>, \<^verbatim>\<open>updateEntity\<close>, \<^verbatim>\<open>checkCollision\<close>,
  \<^verbatim>\<open>generateEntities\<close> and \<^verbatim>\<open>update\<close>. Drawing and recording are left out.

  \<^item> A JavaScript \<^verbatim>\<open>number\<close> is read as a real number: arithmetic is exact and there is
    no NaN and no infinity. Rounding can flip one branch that the properties speak about,
    the test of \<^verbatim>\<open>checkCollision\<close> at the threshold; that test, and the resolver with it, is
    given a second time in double precision.
  \<^item> Entities are objects, shared by reference between the array \<^verbatim>\<open>entities\<close> and the
    arrays of \<^verbatim>\<open>entityByElement\<close>. The model has an explicit heap: a list of entity
    objects, a reference being the index of its object, allocation appending a new object.
  \<^item> The \<^verbatim>\<open>pos\<close> and \<^verbatim>\<open>vel\<close> arrays of an entity are held by value: every call of
    \<^verbatim>\<open>createEntity\<close> in the file passes a fresh array literal and builds a fresh velocity.
  \<^item> \<^verbatim>\<open>Math.random()\<close> reads the head of a stream of future results kept in the state.
\<close>

subsection \<open>Data\<close>

type_synonym Vec2 = "real \<times> real"

datatype Element = Rock | Paper | Scissors

record Entity =
  pos :: Vec2
  vel :: Vec2
  element :: Element

type_synonym ref = nat

record state =
  heap :: "Entity list"
  entities :: "ref list"
  entityByElement :: "Element \<Rightarrow> ref list"
  rng :: "real stream"

definition ENTITY_SIZE :: real where
  "ENTITY_SIZE = 10"

definition ENTITY_SPEED :: real where
  "ENTITY_SPEED = 1"

text \<open>\<^verbatim>\<open>canvas.width\<close> and \<^verbatim>\<open>canvas.height\<close>: the canvas is created with
  \<^verbatim>\<open>width = 400\<close> and \<^verbatim>\<open>height = 400\<close>.\<close>

definition canvas_width :: real where
  "canvas_width = 400"

definition canvas_height :: real where
  "canvas_height = 400"

text \<open>The state at module load, before the three calls of \<^verbatim>\<open>generateEntities\<close>.\<close>

definition init :: "real stream \<Rightarrow> state" where
  "init r = \<lparr>heap = [], entities = [], entityByElement = (\<lambda>_. []), rng = r\<rparr>"

subsection \<open>Library functions the code calls\<close>

text \<open>\<^verbatim>\<open>Math.random()\<close>: the next draw, and the state with the draw consumed.\<close>

definition Math_random :: "state \<Rightarrow> real \<times> state" where
  "Math_random s = (shd (rng s), s\<lparr>rng := stl (rng s)\<rparr>)"

definition Math_hypot :: "real \<Rightarrow> real \<Rightarrow> real" where
  "Math_hypot x y = sqrt (x * x + y * y)"

text \<open>\<^verbatim>\<open>xs.indexOf(x)\<close>: the first index holding \<open>x\<close>, or \<open>-1\<close>.\<close>

fun indexOf :: "'a list \<Rightarrow> 'a \<Rightarrow> int" where
  "indexOf [] x = - 1"
| "indexOf (y # ys) x =
     (if y = x then 0
      else (let i = indexOf ys x in if i < 0 then - 1 else i + 1))"

text \<open>\<^verbatim>\<open>xs.splice(start, 1)\<close>: a negative start counts from the end, a start beyond the
  end removes nothing.\<close>

definition splice1 :: "'a list \<Rightarrow> int \<Rightarrow> 'a list" where
  "splice1 xs start =
     (let len = int (length xs);
          st = (if start < 0 then max (len + start) 0 else min start len)
      in take (nat st) xs @ drop (nat st + 1) xs)"

subsection \<open>The functions of the simulation\<close>

definition clamp :: "real \<Rightarrow> real \<Rightarrow> real \<Rightarrow> real" where
  "clamp v lo hi = max lo (min hi v)"

definition createEntity :: "Vec2 \<Rightarrow> real \<Rightarrow> Element \<Rightarrow> state \<Rightarrow> state" where
  "createEntity p direction el s =
     (let (u, s1) = Math_random s;
          speed = ENTITY_SPEED * (u * 0.5 + 0.5);
          v = (cos direction * speed, sin direction * speed);
          s2 = s1\<lparr>heap := heap s1 @ [\<lparr>pos = p, vel = v, element = el\<rparr>],
                  entities := entities s1 @ [length (heap s1)]\<rparr>;
          newest = entities s2 ! (length (entities s2) - 1)
      in s2\<lparr>entityByElement := (entityByElement s2)(el := entityByElement s2 el @ [newest])\<rparr>)"

definition changeEntityElement :: "ref \<Rightarrow> Element \<Rightarrow> state \<Rightarrow> state" where
  "changeEntityElement entity el s =
     (let old = element (heap s ! entity);
          index = indexOf (entityByElement s old) entity;
          s1 = s\<lparr>entityByElement := (entityByElement s)(old := splice1 (entityByElement s old) index)\<rparr>;
          s2 = s1\<lparr>heap := (heap s1)[entity := (heap s1 ! entity)\<lparr>element := el\<rparr>]\<rparr>
      in s2\<lparr>entityByElement := (entityByElement s2)(el := entityByElement s2 el @ [entity])\<rparr>)"

text \<open>The body of \<^verbatim>\<open>updateEntity\<close> on the entity object.\<close>

definition moveEntity :: "Entity \<Rightarrow> Entity" where
  "moveEntity en =
     (let x = fst (pos en) + fst (vel en);
          y = snd (pos en) + snd (vel en);
          vx = fst (vel en);
          vy = snd (vel en);
          (vx, x) =
            (if x < ENTITY_SIZE \<or> x > canvas_width - ENTITY_SIZE
             then (vx * - 1, clamp x ENTITY_SIZE (canvas_width - ENTITY_SIZE))
             else (vx, x));
          (vy, y) =
            (if y < ENTITY_SIZE \<or> y > canvas_height - ENTITY_SIZE
             then (vy * - 1, clamp y ENTITY_SIZE (canvas_height - ENTITY_SIZE))
             else (vy, y))
      in en\<lparr>pos := (x, y), vel := (vx, vy)\<rparr>)"

definition updateEntity :: "ref \<Rightarrow> state \<Rightarrow> state" where
  "updateEntity entity s = s\<lparr>heap := (heap s)[entity := moveEntity (heap s ! entity)]\<rparr>"

definition enemyElement :: "Element \<Rightarrow> Element" where
  "enemyElement el = (if el = Rock then Paper else if el = Paper then Scissors else Rock)"

text \<open>The test of the \<^verbatim>\<open>if\<close> in \<^verbatim>\<open>checkCollision\<close>.\<close>

definition touching :: "state \<Rightarrow> ref \<Rightarrow> ref \<Rightarrow> bool" where
  "touching s entity enemy \<longleftrightarrow>
     Math_hypot (fst (pos (heap s ! entity)) - fst (pos (heap s ! enemy)))
                (snd (pos (heap s ! entity)) - snd (pos (heap s ! enemy)))
       < ENTITY_SIZE * 2"

text \<open>The \<^verbatim>\<open>for ... of\<close> loop of \<^verbatim>\<open>checkCollision\<close> over the enemies still to visit; the
  \<^verbatim>\<open>break\<close> is the branch without a recursive call.\<close>

fun checkCollision_loop :: "ref \<Rightarrow> ref list \<Rightarrow> state \<Rightarrow> state" where
  "checkCollision_loop entity [] s = s"
| "checkCollision_loop entity (enemy # rest) s =
     (if touching s entity enemy
      then changeEntityElement entity (element (heap s ! enemy)) s
      else checkCollision_loop entity rest s)"

definition checkCollision :: "ref \<Rightarrow> state \<Rightarrow> state" where
  "checkCollision entity s =
     (let enemies = entityByElement s (enemyElement (element (heap s ! entity)))
      in checkCollision_loop entity enemies s)"

text \<open>The body of the loop of \<^verbatim>\<open>generateEntities\<close>: two draws, then \<^verbatim>\<open>createEntity\<close>.\<close>

definition generateEntities_body :: "Vec2 \<Rightarrow> real \<Rightarrow> Element \<Rightarrow> state \<Rightarrow> state" where
  "generateEntities_body around spread el s =
     (let (u1, s1) = Math_random s;
          direction = u1 * pi * 2;
          (u2, s2) = Math_random s1;
          d = u2 * spread;
          p = (fst around + cos direction * d, snd around + sin direction * d)
      in createEntity p direction el s2)"

text \<open>The loop of \<^verbatim>\<open>generateEntities\<close>; \<open>i\<close> and \<open>count\<close> are numbers.\<close>

function generateEntities_loop ::
  "real \<Rightarrow> Vec2 \<Rightarrow> real \<Rightarrow> real \<Rightarrow> Element \<Rightarrow> state \<Rightarrow> state" where
  "generateEntities_loop i around spread count el s =
     (if i < count
      then generateEntities_loop (i + 1) around spread count el
             (generateEntities_body around spread el s)
      else s)"
  by pat_completeness auto
termination
  by (relation "measure (\<lambda>(i, around, spread, count, el, s). nat \<lceil>count - i\<rceil>)")
    (simp_all add: diff_diff_eq [symmetric])

declare generateEntities_loop.simps [simp del]

definition generateEntities :: "Vec2 \<Rightarrow> real \<Rightarrow> real \<Rightarrow> Element \<Rightarrow> state \<Rightarrow> state" where
  "generateEntities around spread count el s = generateEntities_loop 0 around spread count el s"

text \<open>The loop of \<^verbatim>\<open>update\<close> over the entities still to visit.\<close>

fun update_loop :: "ref list \<Rightarrow> state \<Rightarrow> state" where
  "update_loop [] s = s"
| "update_loop (entity # rest) s = update_loop rest (checkCollision entity (updateEntity entity s))"

definition update :: "state \<Rightarrow> state" where
  "update s = update_loop (entities s) s"

subsection \<open>The callers: initial population, click handler, frame loop\<close>

definition COUNT :: real where
  "COUNT = 50"

definition SPREAD :: real where
  "SPREAD = 50"

text \<open>The three top-level calls of \<^verbatim>\<open>generateEntities\<close>.\<close>

definition populate :: "state \<Rightarrow> state" where
  "populate s =
     (let s1 = generateEntities (canvas_width / 4, canvas_height / 3) SPREAD COUNT Rock s;
          s2 = generateEntities (canvas_width / 2, (canvas_height / 3) * 2) SPREAD COUNT Paper s1
      in generateEntities ((canvas_width / 4) * 3, canvas_height / 3) SPREAD COUNT Scissors s2)"

text \<open>The click listener of the canvas, at \<^verbatim>\<open>(event.offsetX, event.offsetY)\<close>. The element is
  chosen first, then the direction is drawn.\<close>

definition click :: "real \<Rightarrow> real \<Rightarrow> state \<Rightarrow> state" where
  "click x y s =
     (let (u1, s1) = Math_random s;
          (el, s2) =
            (if u1 < 1 / 3 then (Rock, s1)
             else (let (u2, s2) = Math_random s1
                   in (if u2 < 0.5 then Paper else Scissors, s2)));
          (u3, s3) = Math_random s2
      in createEntity (x, y) (u3 * pi * 2) el s3)"

text \<open>What can happen to the state between two frames: a call of \<^verbatim>\<open>createEntity\<close>, a call
  of \<^verbatim>\<open>generateEntities\<close>, a click, or the \<^verbatim>\<open>update\<close> of a frame.\<close>

datatype event =
    SpawnAt Vec2 real Element
  | SpawnCluster Vec2 real real Element
  | Click real real
  | Tick

fun perform :: "event \<Rightarrow> state \<Rightarrow> state" where
  "perform (SpawnAt p direction el) s = createEntity p direction el s"
| "perform (SpawnCluster around spread count el) s = generateEntities around spread count el s"
| "perform (Click x y) s = click x y s"
| "perform Tick s = update s"

fun run :: "event list \<Rightarrow> state \<Rightarrow> state" where
  "run [] s = s"
| "run (ev # evs) s = run evs (perform ev s)"

subsection \<open>The test of \<^verbatim>\<open>checkCollision\<close> in double precision\<close>







subsection \<open>The partition invariant\<close>

text \<open>The collection of kind \<open>k\<close> holds, once each, exactly the entities of the canonical
  list whose \<^verbatim>\<open>element\<close> field is \<open>k\<close>.\<close>

definition indexed :: "state \<Rightarrow> Element \<Rightarrow> bool" where
  "indexed s k \<longleftrightarrow>
     distinct (entityByElement s k) \<and>
     set (entityByElement s k) = set (filter (\<lambda>a. element (heap s ! a) = k) (entities s))"

text \<open>The canonical list holds valid references, each once, and the three collections index
  it by kind.\<close>

definition partition_inv :: "state \<Rightarrow> bool" where
  "partition_inv s \<longleftrightarrow>
     distinct (entities s) \<and> list_all (\<lambda>a. a < length (heap s)) (entities s) \<and>
     indexed s Rock \<and> indexed s Paper \<and> indexed s Scissors"

subsection \<open>Notions the properties are stated with\<close>

text \<open>The Euclidean distance of two points.\<close>

definition distance :: "Vec2 \<Rightarrow> Vec2 \<Rightarrow> real" where
  "distance p q = sqrt ((fst p - fst q)\<^sup>2 + (snd p - snd q)\<^sup>2)"

text \<open>A position is inside the arena: at least \<^verbatim>\<open>ENTITY_SIZE\<close> away from each wall.\<close>

definition in_arena :: "Vec2 \<Rightarrow> bool" where
  "in_arena p \<longleftrightarrow>
     ENTITY_SIZE \<le> fst p \<and> fst p \<le> canvas_width - ENTITY_SIZE \<and>
     ENTITY_SIZE \<le> snd p \<and> snd p \<le> canvas_height - ENTITY_SIZE"

text \<open>The entity a cluster spawns in its round \<open>j\<close>, written from the draws \<open>3j\<close>, \<open>3j + 1\<close>
  and \<open>3j + 2\<close> of the stream \<open>r\<close>: the direction, the radial offset and the speed factor.
  It is compared with \<^verbatim>\<open>generateEntities\<close> below.\<close>

definition cluster_entity :: "Vec2 \<Rightarrow> real \<Rightarrow> Element \<Rightarrow> real stream \<Rightarrow> nat \<Rightarrow> Entity" where
  "cluster_entity around spread el r j =
     (let direction = r !! (3 * j) * pi * 2;
          d = r !! (3 * j + 1) * spread;
          speed = ENTITY_SPEED * (r !! (3 * j + 2) * 0.5 + 0.5)
      in \<lparr>pos = (fst around + cos direction * d, snd around + sin direction * d),
          vel = (cos direction * speed, sin direction * speed),
          element = el\<rparr>)"



subsection \<open>Concrete states\<close>

text \<open>A stationary rock at \<open>(100, 100)\<close> and a stationary paper at \<open>(101, 100)\<close>.\<close>

definition duel :: state where
  "duel =
     \<lparr>heap = [\<lparr>pos = (100, 100), vel = (0, 0), element = Rock\<rparr>,
              \<lparr>pos = (101, 100), vel = (0, 0), element = Paper\<rparr>],
      entities = [0, 1],
      entityByElement = (\<lambda>_. [])(Rock := [0], Paper := [1]),
      rng = sconst 0\<rparr>"

text \<open>A single entity of kind \<open>k\<close> at \<open>(5, 200)\<close> with velocity \<open>(-1, 0)\<close>.\<close>

definition lone :: "Element \<Rightarrow> state" where
  "lone k =
     \<lparr>heap = [\<lparr>pos = (5, 200), vel = (- 1, 0), element = k\<rparr>],
      entities = [0],
      entityByElement = (\<lambda>_. [])(k := [0]),
      rng = sconst 0\<rparr>"

text \<open>A stationary rock at \<open>(100, 100)\<close> and a stationary paper at \<open>(120, 100)\<close>, at
  distance \<open>2 * ENTITY_SIZE\<close> exactly.\<close>

definition standoff :: state where
  "standoff =
     \<lparr>heap = [\<lparr>pos = (100, 100), vel = (0, 0), element = Rock\<rparr>,
              \<lparr>pos = (120, 100), vel = (0, 0), element = Paper\<rparr>],
      entities = [0, 1],
      entityByElement = (\<lambda>_. [])(Rock := [0], Paper := [1]),
      rng = sconst 0\<rparr>"



section \<open>Properties\<close>

subsection \<open>\<^verbatim>\<open>indexOf\<close>, \<^verbatim>\<open>splice\<close> and \<^verbatim>\<open>Math.hypot\<close>\<close>

lemma indexOf_range: "indexOf xs x = - 1 \<or> (0 \<le> indexOf xs x \<and> indexOf xs x < int (length xs))"
  by (induction xs) (auto simp: Let_def)

lemma indexOf_notin: "x \<notin> set xs \<Longrightarrow> indexOf xs x = - 1"
  by (induction xs) (auto simp: Let_def)

lemma indexOf_in: "x \<in> set xs \<Longrightarrow> 0 \<le> indexOf xs x"
  by (induction xs) (auto simp: Let_def)

lemma splice1_Cons_Suc: "0 \<le> i \<Longrightarrow> splice1 (y # ys) (i + 1) = y # splice1 ys i"
  by (auto simp: splice1_def Let_def nat_add_distrib min_def)

lemma splice1_indexOf: "x \<in> set xs \<Longrightarrow> splice1 xs (indexOf xs x) = remove1 x xs"
proof (induction xs)
  case Nil then show ?case by simp
next
  case (Cons y ys)
  show ?case
  proof (cases "y = x")
    case True then show ?thesis by (simp add: splice1_def)
  next
    case False
    with Cons.prems have "x \<in> set ys" by simp
    then have "0 \<le> indexOf ys x" by (rule indexOf_in)
    with False Cons.IH \<open>x \<in> set ys\<close> show ?thesis
      by (simp add: Let_def splice1_Cons_Suc)
  qed
qed

lemma splice1_notin: "x \<notin> set xs \<Longrightarrow> splice1 xs (indexOf xs x) = butlast xs"
  by (cases xs rule: rev_cases) (auto simp: indexOf_notin splice1_def Let_def max_def butlast_conv_take simp del: indexOf.simps)

lemma Math_hypot_less_iff: "Math_hypot x y < c \<longleftrightarrow> 0 < c \<and> x * x + y * y < c * c"
proof (cases "0 < c")
  case True
  then have "c = sqrt (c * c)" by simp
  then have "Math_hypot x y < c \<longleftrightarrow> sqrt (x * x + y * y) < sqrt (c * c)"
    by (simp add: Math_hypot_def)
  then show ?thesis using True by (simp only: real_sqrt_less_iff) simp
next
  case False
  have "0 \<le> Math_hypot x y" by (simp add: Math_hypot_def)
  with False show ?thesis by auto
qed

subsection \<open>What each function does to the fields of the state\<close>

lemma heap_createEntity:
  "heap (createEntity p d k s) =
     heap s @ [\<lparr>pos = p,
                vel = (cos d * (ENTITY_SPEED * (shd (rng s) * 0.5 + 0.5)),
                       sin d * (ENTITY_SPEED * (shd (rng s) * 0.5 + 0.5))),
                element = k\<rparr>]"
  by (simp add: createEntity_def Math_random_def Let_def)

lemma entities_createEntity: "entities (createEntity p d k s) = entities s @ [length (heap s)]"
  by (simp add: createEntity_def Math_random_def Let_def)

lemma entityByElement_createEntity:
  "entityByElement (createEntity p d k s) =
     (entityByElement s)(k := entityByElement s k @ [length (heap s)])"
  by (simp add: createEntity_def Math_random_def Let_def)

lemma rng_createEntity: "rng (createEntity p d k s) = stl (rng s)"
  by (simp add: createEntity_def Math_random_def Let_def)

lemma heap_changeEntityElement:
  "heap (changeEntityElement e k s) = (heap s)[e := (heap s ! e)\<lparr>element := k\<rparr>]"
  by (simp add: changeEntityElement_def Let_def)

lemma entities_changeEntityElement: "entities (changeEntityElement e k s) = entities s"
  by (simp add: changeEntityElement_def Let_def)

lemma rng_changeEntityElement: "rng (changeEntityElement e k s) = rng s"
  by (simp add: changeEntityElement_def Let_def)

lemma entityByElement_changeEntityElement:
  "entityByElement (changeEntityElement e k s) k' =
     (let old = element (heap s ! e);
          removed = (if k' = old
                     then splice1 (entityByElement s old) (indexOf (entityByElement s old) e)
                     else entityByElement s k')
      in if k' = k then removed @ [e] else removed)"
  by (simp add: changeEntityElement_def Let_def)

subsection \<open>The partition invariant is kept\<close>

lemma partition_inv_indexed: "partition_inv s \<Longrightarrow> indexed s k"
  by (cases k) (simp_all add: partition_inv_def)

lemma partition_invI:
  "distinct (entities s) \<Longrightarrow> (\<And>a. a \<in> set (entities s) \<Longrightarrow> a < length (heap s)) \<Longrightarrow>
   (\<And>k. indexed s k) \<Longrightarrow> partition_inv s"
  by (simp add: partition_inv_def list_all_iff)

lemma partition_inv_valid: "partition_inv s \<Longrightarrow> a \<in> set (entities s) \<Longrightarrow> a < length (heap s)"
  by (simp add: partition_inv_def list_all_iff)

lemma partition_inv_distinct: "partition_inv s \<Longrightarrow> distinct (entities s)"
  by (simp add: partition_inv_def)

lemma indexed_mem:
  "indexed s k \<Longrightarrow> a \<in> set (entityByElement s k) \<longleftrightarrow> a \<in> set (entities s) \<and> element (heap s ! a) = k"
  by (auto simp: indexed_def)

lemma partition_inv_createEntity:
  assumes "partition_inv s"
  shows "partition_inv (createEntity p d k s)"
proof (rule partition_invI)
  have fresh: "length (heap s) \<notin> set (entities s)"
    using partition_inv_valid [OF assms] by blast
  show "distinct (entities (createEntity p d k s))"
    using fresh partition_inv_distinct [OF assms] by (simp add: entities_createEntity)
  show "a < length (heap (createEntity p d k s))" if "a \<in> set (entities (createEntity p d k s))" for a
    using that partition_inv_valid [OF assms, of a]
    by (auto simp: entities_createEntity heap_createEntity)
  show "indexed (createEntity p d k s) k'" for k'
  proof -
    have old: "indexed s k'" using assms by (rule partition_inv_indexed)
    have same: "filter (\<lambda>a. element (heap (createEntity p d k s) ! a) = k') (entities s)
                = filter (\<lambda>a. element (heap s ! a) = k') (entities s)"
      using partition_inv_valid [OF assms]
      by (intro filter_cong) (auto simp: heap_createEntity nth_append)
    have notin: "length (heap s) \<notin> set (entityByElement s k')"
      using fresh old by (simp add: indexed_mem)
    show ?thesis
      using old notin unfolding indexed_def entities_createEntity entityByElement_createEntity
      by (simp add: same) (simp add: heap_createEntity)
  qed
qed

lemma partition_inv_changeEntityElement:
  assumes inv: "partition_inv s" and e: "e \<in> set (entities s)"
  shows "partition_inv (changeEntityElement e k s)"
proof (rule partition_invI)
  let ?s' = "changeEntityElement e k s"
  let ?old = "element (heap s ! e)"
  have valid: "e < length (heap s)" using inv e by (rule partition_inv_valid)
  have e_old: "e \<in> set (entityByElement s ?old)"
    using partition_inv_indexed [OF inv, of ?old] e by (simp add: indexed_mem)
  have removed: "splice1 (entityByElement s ?old) (indexOf (entityByElement s ?old) e)
                 = remove1 e (entityByElement s ?old)"
    using e_old by (rule splice1_indexOf)
  show "distinct (entities ?s')"
    using partition_inv_distinct [OF inv] by (simp add: entities_changeEntityElement)
  show "a < length (heap ?s')" if "a \<in> set (entities ?s')" for a
    using that partition_inv_valid [OF inv, of a]
    by (simp add: entities_changeEntityElement heap_changeEntityElement)
  show "indexed ?s' k'" for k'
  proof -
    have old: "indexed s k'" using inv by (rule partition_inv_indexed)
    have el: "element (heap ?s' ! a) = (if a = e then k else element (heap s ! a))"
      if "a \<in> set (entities s)" for a
      using partition_inv_valid [OF inv that] valid
      by (simp add: heap_changeEntityElement nth_list_update)
    have flt: "set (filter (\<lambda>a. element (heap ?s' ! a) = k') (entities s))
               = {a \<in> set (entities s). (if a = e then k else element (heap s ! a)) = k'}"
      using el by auto
    have mem: "a \<in> set (entityByElement s kk) \<longleftrightarrow> a \<in> set (entities s) \<and> element (heap s ! a) = kk" for a kk
      using partition_inv_indexed [OF inv] by (rule indexed_mem)
    have d: "distinct (entityByElement s kk)" for kk
      using partition_inv_indexed [OF inv, of kk] by (simp add: indexed_def)
    show ?thesis
      unfolding indexed_def entities_changeEntityElement flt
      using d e
      by (auto simp: entityByElement_changeEntityElement Let_def removed mem)
  qed
qed

lemma heap_updateEntity: "heap (updateEntity e s) = (heap s)[e := moveEntity (heap s ! e)]"
  by (simp add: updateEntity_def)

lemma entities_updateEntity: "entities (updateEntity e s) = entities s"
  by (simp add: updateEntity_def)

lemma entityByElement_updateEntity: "entityByElement (updateEntity e s) = entityByElement s"
  by (simp add: updateEntity_def)

lemma rng_updateEntity: "rng (updateEntity e s) = rng s"
  by (simp add: updateEntity_def)

lemma element_moveEntity: "element (moveEntity en) = element en"
  by (simp add: moveEntity_def Let_def split: prod.splits)

lemma element_updateEntity: "element (heap (updateEntity e s) ! a) = element (heap s ! a)"
  by (cases "e < length (heap s)") (simp_all add: heap_updateEntity nth_list_update element_moveEntity list_update_beyond)

lemma indexed_updateEntity: "indexed (updateEntity e s) k = indexed s k"
  by (simp add: indexed_def element_updateEntity entities_updateEntity entityByElement_updateEntity)

lemma partition_inv_updateEntity: "partition_inv (updateEntity e s) = partition_inv s"
  by (simp add: partition_inv_def indexed_updateEntity entities_updateEntity heap_updateEntity)

lemma checkCollision_loop_cases:
  "checkCollision_loop e ds s = s \<or>
   (\<exists>d \<in> set ds. touching s e d \<and> checkCollision_loop e ds s = changeEntityElement e (element (heap s ! d)) s)"
  by (induction ds) auto

lemma checkCollision_cases:
  "checkCollision e s = s \<or>
   (\<exists>d \<in> set (entityByElement s (enemyElement (element (heap s ! e)))).
      touching s e d \<and> checkCollision e s = changeEntityElement e (element (heap s ! d)) s)"
  using checkCollision_loop_cases [of e _ s] by (simp add: checkCollision_def)

lemma partition_inv_checkCollision:
  "partition_inv s \<Longrightarrow> e \<in> set (entities s) \<Longrightarrow> partition_inv (checkCollision e s)"
  using checkCollision_cases [of e s] by (auto intro: partition_inv_changeEntityElement)

lemma entities_checkCollision: "entities (checkCollision e s) = entities s"
  using checkCollision_cases [of e s] by (auto simp: entities_changeEntityElement)

lemma length_heap_checkCollision: "length (heap (checkCollision e s)) = length (heap s)"
  using checkCollision_cases [of e s] by (auto simp: heap_changeEntityElement)

lemma rng_checkCollision: "rng (checkCollision e s) = rng s"
  using checkCollision_cases [of e s] by (auto simp: rng_changeEntityElement)

lemma entities_update_loop: "entities (update_loop es s) = entities s"
  by (induction es arbitrary: s) (simp_all add: entities_checkCollision entities_updateEntity)

lemma partition_inv_update_loop:
  "partition_inv s \<Longrightarrow> set es \<subseteq> set (entities s) \<Longrightarrow> partition_inv (update_loop es s)"
proof (induction es arbitrary: s)
  case Nil then show ?case by simp
next
  case (Cons e es)
  let ?s1 = "checkCollision e (updateEntity e s)"
  have "partition_inv ?s1"
    using Cons.prems
    by (intro partition_inv_checkCollision) (simp_all add: partition_inv_updateEntity entities_updateEntity)
  moreover have "set es \<subseteq> set (entities ?s1)"
    using Cons.prems by (simp add: entities_checkCollision entities_updateEntity)
  ultimately show ?case using Cons.IH by simp
qed

lemma partition_inv_update: "partition_inv s \<Longrightarrow> partition_inv (update s)"
  by (simp add: update_def partition_inv_update_loop)

lemma partition_inv_rng: "partition_inv (s\<lparr>rng := r\<rparr>) = partition_inv s"
  by (simp add: partition_inv_def indexed_def)

lemma partition_inv_generateEntities_body:
  "partition_inv s \<Longrightarrow> partition_inv (generateEntities_body around spread k s)"
  by (simp add: generateEntities_body_def Math_random_def Let_def partition_inv_createEntity partition_inv_rng)

lemma partition_inv_generateEntities_loop:
  "partition_inv s \<Longrightarrow> partition_inv (generateEntities_loop i around spread count k s)"
proof (induction i around spread count k s rule: generateEntities_loop.induct)
  case (1 i around spread count el s)
  then show ?case
    by (subst generateEntities_loop.simps) (simp add: partition_inv_generateEntities_body)
qed

lemma partition_inv_generateEntities:
  "partition_inv s \<Longrightarrow> partition_inv (generateEntities around spread count k s)"
  by (simp add: generateEntities_def partition_inv_generateEntities_loop)

lemma partition_inv_click: "partition_inv s \<Longrightarrow> partition_inv (click x y s)"
  by (simp add: click_def Math_random_def Let_def partition_inv_createEntity partition_inv_rng)

lemma partition_inv_perform: "partition_inv s \<Longrightarrow> partition_inv (perform ev s)"
  by (cases ev) (simp_all add: partition_inv_createEntity partition_inv_generateEntities
      partition_inv_click partition_inv_update)

lemma partition_inv_run: "partition_inv s \<Longrightarrow> partition_inv (run evs s)"
  by (induction evs arbitrary: s) (simp_all add: partition_inv_perform)

lemma partition_inv_init: "partition_inv (init r)"
  by (simp add: partition_inv_def indexed_def init_def)

lemma partition_inv_populate: "partition_inv s \<Longrightarrow> partition_inv (populate s)"
  by (simp add: populate_def Let_def partition_inv_generateEntities)

lemma length_filter_kinds:
  "length (filter (\<lambda>a. f a = Rock) xs) + length (filter (\<lambda>a. f a = Paper) xs)
     + length (filter (\<lambda>a. f a = Scissors) xs) = length xs"
proof (induction xs)
  case Nil then show ?case by simp
next
  case (Cons x xs) then show ?case by (cases "f x") simp_all
qed

lemma indexed_length:
  assumes "indexed s k" "distinct (entities s)"
  shows "length (entityByElement s k) = length (filter (\<lambda>a. element (heap s ! a) = k) (entities s))"
proof -
  let ?f = "filter (\<lambda>a. element (heap s ! a) = k) (entities s)"
  have d: "distinct (entityByElement s k)" and eq: "set (entityByElement s k) = set ?f"
    using assms(1) by (simp_all only: indexed_def)
  have "card (set (entityByElement s k)) = length (entityByElement s k)"
    using d by (rule distinct_card)
  moreover have "card (set ?f) = length ?f"
    by (rule distinct_card) (simp add: assms(2))
  ultimately show ?thesis by (simp only: eq)
qed

lemma partition_inv_sizes:
  assumes "partition_inv s"
  shows "length (entityByElement s Rock) + length (entityByElement s Paper)
         + length (entityByElement s Scissors) = length (entities s)"
  using length_filter_kinds [of "\<lambda>a. element (heap s ! a)" "entities s"]
    indexed_length [OF partition_inv_indexed [OF assms] partition_inv_distinct [OF assms]]
  by simp

lemma partition_inv_disjoint:
  "partition_inv s \<Longrightarrow> k \<noteq> k' \<Longrightarrow> set (entityByElement s k) \<inter> set (entityByElement s k') = {}"
  using partition_inv_indexed [of s k] partition_inv_indexed [of s k']
  by (auto simp: indexed_mem)

lemma partition_inv_cover:
  "partition_inv s \<Longrightarrow>
   set (entityByElement s Rock) \<union> set (entityByElement s Paper) \<union> set (entityByElement s Scissors)
     = set (entities s)"
proof -
  assume inv: "partition_inv s"
  have "a \<in> set (entityByElement s Rock) \<union> set (entityByElement s Paper) \<union> set (entityByElement s Scissors)
        \<longleftrightarrow> a \<in> set (entities s)" for a
    using partition_inv_indexed [OF inv] by (cases "element (heap s ! a)") (auto simp: indexed_mem)
  then show ?thesis by blast
qed

lemma partition_inv_duel: "partition_inv duel"
  by (simp add: partition_inv_def indexed_def duel_def)

subsection \<open>Motion stays in the arena; collision resolution leaves positions alone\<close>

lemma clamp_bounds: "lo \<le> hi \<Longrightarrow> lo \<le> clamp v lo hi \<and> clamp v lo hi \<le> hi"
  by (simp add: clamp_def)

lemma pos_moveEntity:
  "pos (moveEntity en) =
     (let x = fst (pos en) + fst (vel en); y = snd (pos en) + snd (vel en)
      in (if x < ENTITY_SIZE \<or> x > canvas_width - ENTITY_SIZE
          then clamp x ENTITY_SIZE (canvas_width - ENTITY_SIZE) else x,
          if y < ENTITY_SIZE \<or> y > canvas_height - ENTITY_SIZE
          then clamp y ENTITY_SIZE (canvas_height - ENTITY_SIZE) else y))"
  by (simp add: moveEntity_def Let_def)

lemma vel_moveEntity:
  "vel (moveEntity en) =
     (let x = fst (pos en) + fst (vel en); y = snd (pos en) + snd (vel en)
      in (if x < ENTITY_SIZE \<or> x > canvas_width - ENTITY_SIZE
          then - fst (vel en) else fst (vel en),
          if y < ENTITY_SIZE \<or> y > canvas_height - ENTITY_SIZE
          then - snd (vel en) else snd (vel en)))"
  by (simp add: moveEntity_def Let_def)

lemma in_arena_moveEntity: "in_arena (pos (moveEntity en))"
proof -
  have w: "ENTITY_SIZE \<le> canvas_width - ENTITY_SIZE"
    and h: "ENTITY_SIZE \<le> canvas_height - ENTITY_SIZE"
    by (simp_all add: ENTITY_SIZE_def canvas_width_def canvas_height_def)
  show ?thesis
    using clamp_bounds [OF w] clamp_bounds [OF h]
    by (auto simp: in_arena_def pos_moveEntity Let_def)
qed

lemma pos_changeEntityElement: "pos (heap (changeEntityElement e k s) ! a) = pos (heap s ! a)"
  by (cases "e < length (heap s)")
    (simp_all add: heap_changeEntityElement nth_list_update list_update_beyond)

lemma vel_changeEntityElement: "vel (heap (changeEntityElement e k s) ! a) = vel (heap s ! a)"
  by (cases "e < length (heap s)")
    (simp_all add: heap_changeEntityElement nth_list_update list_update_beyond)

lemma other_changeEntityElement: "a \<noteq> e \<Longrightarrow> heap (changeEntityElement e k s) ! a = heap s ! a"
  by (simp add: heap_changeEntityElement)

lemma pos_checkCollision: "pos (heap (checkCollision e s) ! a) = pos (heap s ! a)"
  using checkCollision_cases [of e s] by (auto simp: pos_changeEntityElement)

lemma vel_checkCollision: "vel (heap (checkCollision e s) ! a) = vel (heap s ! a)"
  using checkCollision_cases [of e s] by (auto simp: vel_changeEntityElement)

lemma other_checkCollision: "a \<noteq> e \<Longrightarrow> heap (checkCollision e s) ! a = heap s ! a"
  using checkCollision_cases [of e s] by (auto simp: other_changeEntityElement)

lemma other_updateEntity: "a \<noteq> e \<Longrightarrow> heap (updateEntity e s) ! a = heap s ! a"
  by (simp add: heap_updateEntity)

lemma self_updateEntity:
  "e < length (heap s) \<Longrightarrow> heap (updateEntity e s) ! e = moveEntity (heap s ! e)"
  by (simp add: heap_updateEntity)

lemma length_heap_updateEntity: "length (heap (updateEntity e s)) = length (heap s)"
  by (simp add: heap_updateEntity)

lemma length_heap_update_loop: "length (heap (update_loop es s)) = length (heap s)"
  by (induction es arbitrary: s) (simp_all add: length_heap_checkCollision length_heap_updateEntity)

lemma in_arena_step:
  "(a = e \<and> e < length (heap s)) \<or> in_arena (pos (heap s ! a)) \<Longrightarrow>
   in_arena (pos (heap (checkCollision e (updateEntity e s)) ! a))"
  by (cases "a = e"; cases "e < length (heap s)")
    (simp_all add: pos_checkCollision self_updateEntity other_updateEntity in_arena_moveEntity
      heap_updateEntity list_update_beyond)

lemma in_arena_update_loop:
  "(a \<in> set es \<and> a < length (heap s)) \<or> in_arena (pos (heap s ! a)) \<Longrightarrow>
   in_arena (pos (heap (update_loop es s) ! a))"
proof (induction es arbitrary: s)
  case Nil then show ?case by simp
next
  case (Cons e es)
  let ?s1 = "checkCollision e (updateEntity e s)"
  have len: "length (heap ?s1) = length (heap s)"
    by (simp add: length_heap_checkCollision length_heap_updateEntity)
  have "(a \<in> set es \<and> a < length (heap ?s1)) \<or> in_arena (pos (heap ?s1 ! a))"
  proof (cases "a \<in> set es \<and> a < length (heap s)")
    case True then show ?thesis by (simp add: len)
  next
    case False
    with Cons.prems have "(a = e \<and> e < length (heap s)) \<or> in_arena (pos (heap s ! a))" by auto
    then show ?thesis using in_arena_step by blast
  qed
  then show ?case using Cons.IH by simp
qed


subsection \<open>The collision resolver\<close>

lemma enemyElement_neq: "enemyElement k \<noteq> k"
  by (cases k) (simp_all add: enemyElement_def)



lemma checkCollision_loop_find:
  "checkCollision_loop e ds s =
     (case find (touching s e) ds of
        None \<Rightarrow> s
      | Some d \<Rightarrow> changeEntityElement e (element (heap s ! d)) s)"
  by (induction ds) simp_all

lemma checkCollision_find:
  "checkCollision e s =
     (case find (touching s e) (entityByElement s (enemyElement (element (heap s ! e)))) of
        None \<Rightarrow> s
      | Some d \<Rightarrow> changeEntityElement e (element (heap s ! d)) s)"
  by (simp add: checkCollision_def checkCollision_loop_find)

lemma element_changeEntityElement_self:
  "e < length (heap s) \<Longrightarrow> element (heap (changeEntityElement e k s) ! e) = k"
  by (simp add: heap_changeEntityElement)


lemma checkCollision_hit:
  assumes inv: "partition_inv s" and e: "e \<in> set (entities s)"
    and d: "d \<in> set (entities s)" "element (heap s ! d) = enemyElement (element (heap s ! e))"
      "touching s e d"
  shows "element (heap (checkCollision e s) ! e) = enemyElement (element (heap s ! e))"
proof -
  let ?C = "enemyElement (element (heap s ! e))"
  have mem: "x \<in> set (entityByElement s ?C) \<longleftrightarrow> x \<in> set (entities s) \<and> element (heap s ! x) = ?C" for x
    using partition_inv_indexed [OF inv] by (rule indexed_mem)
  have "d \<in> set (entityByElement s ?C)" using d by (simp add: mem)
  with d(3) have "find (touching s e) (entityByElement s ?C) \<noteq> None"
    by (auto simp: find_None_iff)
  then obtain d' where f: "find (touching s e) (entityByElement s ?C) = Some d'" by auto
  then have "d' \<in> set (entityByElement s ?C)" by (auto simp: find_Some_iff)
  then have "element (heap s ! d') = ?C" by (simp add: mem)
  moreover have "e < length (heap s)" using inv e by (rule partition_inv_valid)
  ultimately show ?thesis
    using f by (simp add: checkCollision_find element_changeEntityElement_self)
qed










subsection \<open>Empty collections\<close>






subsection \<open>The frame loop and the random source\<close>

lemma touching_rng: "touching (s\<lparr>rng := r\<rparr>) = touching s"
  by (simp add: touching_def fun_eq_iff)

lemma changeEntityElement_rng:
  "changeEntityElement e k (s\<lparr>rng := r\<rparr>) = (changeEntityElement e k s)\<lparr>rng := r\<rparr>"
  by (simp add: changeEntityElement_def Let_def)

lemma checkCollision_loop_rng:
  "checkCollision_loop e ds (s\<lparr>rng := r\<rparr>) = (checkCollision_loop e ds s)\<lparr>rng := r\<rparr>"
  by (induction ds) (simp_all add: touching_rng changeEntityElement_rng)

lemma checkCollision_rng: "checkCollision e (s\<lparr>rng := r\<rparr>) = (checkCollision e s)\<lparr>rng := r\<rparr>"
  by (simp add: checkCollision_def checkCollision_loop_rng)

lemma updateEntity_rng: "updateEntity e (s\<lparr>rng := r\<rparr>) = (updateEntity e s)\<lparr>rng := r\<rparr>"
  by (simp add: updateEntity_def)

lemma update_loop_rng: "update_loop es (s\<lparr>rng := r\<rparr>) = (update_loop es s)\<lparr>rng := r\<rparr>"
  by (induction es arbitrary: s) (simp_all add: updateEntity_rng checkCollision_rng)

lemma update_rng: "update (s\<lparr>rng := r\<rparr>) = (update s)\<lparr>rng := r\<rparr>"
  by (simp add: update_def update_loop_rng)

lemma rng_update_loop: "rng (update_loop es s) = rng s"
  by (induction es arbitrary: s) (simp_all add: rng_checkCollision rng_updateEntity)

lemma rng_update: "rng (update s) = rng s"
  by (simp add: update_def rng_update_loop)


subsection \<open>The canonical list only grows\<close>

lemma entities_update: "entities (update s) = entities s"
  by (simp add: update_def entities_update_loop)

lemma length_heap_update: "length (heap (update s)) = length (heap s)"
  by (simp add: update_def length_heap_update_loop)

lemma entities_generateEntities_body:
  "entities (generateEntities_body around spread k s) = entities s @ [length (heap s)]"
  by (simp add: generateEntities_body_def Math_random_def Let_def entities_createEntity)

lemma entities_generateEntities_loop:
  "\<exists>new. entities (generateEntities_loop i around spread count k s) = entities s @ new"
proof (induction i around spread count k s rule: generateEntities_loop.induct)
  case (1 i around spread count el s)
  show ?case
  proof (cases "i < count")
    case True
    with "1.IH" obtain new where
      "entities (generateEntities_loop (i + 1) around spread count el (generateEntities_body around spread el s))
         = entities (generateEntities_body around spread el s) @ new" by blast
    with True show ?thesis
      by (subst generateEntities_loop.simps) (simp add: entities_generateEntities_body)
  next
    case False then show ?thesis by (subst generateEntities_loop.simps) simp
  qed
qed

lemma entities_click: "entities (click x y s) = entities s @ [length (heap s)]"
  by (simp add: click_def Math_random_def Let_def entities_createEntity)

lemma entities_perform: "\<exists>new. entities (perform ev s) = entities s @ new"
  by (cases ev)
    (simp_all add: entities_createEntity entities_click entities_update
      generateEntities_def entities_generateEntities_loop)

lemma entities_run: "\<exists>new. entities (run evs s) = entities s @ new"
proof (induction evs arbitrary: s)
  case Nil then show ?case by simp
next
  case (Cons ev evs)
  obtain n1 where "entities (perform ev s) = entities s @ n1" using entities_perform by blast
  moreover obtain n2 where "entities (run evs (perform ev s)) = entities (perform ev s) @ n2"
    using Cons.IH by blast
  ultimately show ?case by simp
qed

lemma length_entities_run: "length (entities s) \<le> length (entities (run evs s))"
  using entities_run [of evs s] by auto

subsection \<open>Velocities\<close>

lemma abs_vel_moveEntity:
  "\<bar>fst (vel (moveEntity en))\<bar> = \<bar>fst (vel en)\<bar> \<and> \<bar>snd (vel (moveEntity en))\<bar> = \<bar>snd (vel en)\<bar>"
  by (simp add: vel_moveEntity Let_def)

lemma abs_vel_step:
  "\<bar>fst (vel (heap (checkCollision e (updateEntity e s)) ! a))\<bar> = \<bar>fst (vel (heap s ! a))\<bar> \<and>
   \<bar>snd (vel (heap (checkCollision e (updateEntity e s)) ! a))\<bar> = \<bar>snd (vel (heap s ! a))\<bar>"
  by (cases "a = e"; cases "e < length (heap s)")
    (simp_all add: vel_checkCollision self_updateEntity other_updateEntity abs_vel_moveEntity
      heap_updateEntity list_update_beyond)

lemma abs_vel_update_loop:
  "\<bar>fst (vel (heap (update_loop es s) ! a))\<bar> = \<bar>fst (vel (heap s ! a))\<bar> \<and>
   \<bar>snd (vel (heap (update_loop es s) ! a))\<bar> = \<bar>snd (vel (heap s ! a))\<bar>"
  by (induction es arbitrary: s) (simp_all add: abs_vel_step)

subsection \<open>Clusters, round by round\<close>

lemma generateEntities_body_fields:
  "heap (generateEntities_body around spread k s) = heap s @ [cluster_entity around spread k (rng s) 0]"
  "entities (generateEntities_body around spread k s) = entities s @ [length (heap s)]"
  "entityByElement (generateEntities_body around spread k s)
     = (entityByElement s)(k := entityByElement s k @ [length (heap s)])"
  "rng (generateEntities_body around spread k s) = sdrop 3 (rng s)"
proof -
  have three: "sdrop 3 r = stl (stl (stl r))" for r :: "real stream"
    by (simp only: numeral_3_eq_3 sdrop.simps)
  have idx: "r !! 1 = shd (stl r)" "r !! 2 = shd (stl (stl r))" for r :: "real stream"
    by (simp_all only: One_nat_def numeral_2_eq_2 snth.simps)
  show "heap (generateEntities_body around spread k s) = heap s @ [cluster_entity around spread k (rng s) 0]"
    by (simp add: generateEntities_body_def Math_random_def Let_def heap_createEntity
        cluster_entity_def idx)
  show "entities (generateEntities_body around spread k s) = entities s @ [length (heap s)]"
    by (simp add: generateEntities_body_def Math_random_def Let_def entities_createEntity)
  show "entityByElement (generateEntities_body around spread k s)
     = (entityByElement s)(k := entityByElement s k @ [length (heap s)])"
    by (simp add: generateEntities_body_def Math_random_def Let_def entityByElement_createEntity)
  show "rng (generateEntities_body around spread k s) = sdrop 3 (rng s)"
    by (simp add: generateEntities_body_def Math_random_def Let_def rng_createEntity three)
qed

lemma generateEntities_loop_funpow:
  "generateEntities_loop (real i) around spread (real n) k s
     = (generateEntities_body around spread k ^^ (n - i)) s"
proof (induction "n - i" arbitrary: i s)
  case 0
  then have "\<not> real i < real n" by simp
  then show ?case using 0 by (subst generateEntities_loop.simps) simp
next
  case (Suc m)
  then have lt: "real i < real n" and m: "m = n - Suc i" by simp_all
  have "generateEntities_loop (real i) around spread (real n) k s
        = generateEntities_loop (real (Suc i)) around spread (real n) k
            (generateEntities_body around spread k s)"
    using lt by (subst generateEntities_loop.simps) (simp add: add.commute)
  also have "\<dots> = (generateEntities_body around spread k ^^ m) (generateEntities_body around spread k s)"
    using Suc.hyps(1) [OF m] m by simp
  also have "\<dots> = (generateEntities_body around spread k ^^ Suc m) s"
    by (simp add: funpow_swap1)
  finally show ?case using Suc.hyps(2) by simp
qed

lemma generateEntities_funpow:
  "generateEntities around spread (real n) k s = (generateEntities_body around spread k ^^ n) s"
  using generateEntities_loop_funpow [of 0 around spread n k s] by (simp add: generateEntities_def)

lemma cluster_entity_sdrop:
  "cluster_entity around spread k (sdrop (3 * m) r) 0 = cluster_entity around spread k r m"
  by (simp add: cluster_entity_def sdrop_snth)

lemma funpow_body_fields:
  "heap ((generateEntities_body around spread k ^^ m) s)
     = heap s @ map (cluster_entity around spread k (rng s)) [0..<m] \<and>
   entities ((generateEntities_body around spread k ^^ m) s)
     = entities s @ [length (heap s)..<length (heap s) + m] \<and>
   entityByElement ((generateEntities_body around spread k ^^ m) s)
     = (entityByElement s)(k := entityByElement s k @ [length (heap s)..<length (heap s) + m]) \<and>
   rng ((generateEntities_body around spread k ^^ m) s) = sdrop (3 * m) (rng s)"
proof (induction m)
  case 0 then show ?case by simp
next
  case (Suc m)
  have "3 * Suc m = 3 * m + 3" by simp
  then have "sdrop 3 (sdrop (3 * m) (rng s)) = sdrop (3 * Suc m) (rng s)"
    by (simp only: sdrop_add)
  with Suc show ?case
    by (auto simp: generateEntities_body_fields cluster_entity_sdrop fun_eq_iff)
qed

lemma Math_hypot_polar: "0 \<le> d \<Longrightarrow> Math_hypot (cos t * d) (sin t * d) = d"
proof -
  assume d: "0 \<le> d"
  have one: "cos t * cos t + sin t * sin t = 1"
    using sin_cos_squared_add2 [of t] by (simp add: power2_eq_square)
  have "cos t * d * (cos t * d) + sin t * d * (sin t * d) = (cos t * cos t + sin t * sin t) * (d * d)"
    by (simp only: algebra_simps)
  also have "\<dots> = d * d" by (simp only: one mult_1)
  finally show ?thesis using d by (simp add: Math_hypot_def)
qed

subsection \<open>Frames in sequence\<close>

lemma partition_inv_standoff: "partition_inv standoff"
  by (simp add: partition_inv_def indexed_def standoff_def)










lemma abs_vel_update:
  "\<bar>fst (vel (heap (update s) ! a))\<bar> = \<bar>fst (vel (heap s ! a))\<bar> \<and>
   \<bar>snd (vel (heap (update s) ! a))\<bar> = \<bar>snd (vel (heap s ! a))\<bar>"
  by (simp add: update_def abs_vel_update_loop)

subsection \<open>Entities of a cluster\<close>

lemma generateEntities_fields:
  "heap (generateEntities around spread (real n) k s)
     = heap s @ map (cluster_entity around spread k (rng s)) [0..<n]"
  "entities (generateEntities around spread (real n) k s)
     = entities s @ [length (heap s)..<length (heap s) + n]"
  "entityByElement (generateEntities around spread (real n) k s)
     = (entityByElement s)(k := entityByElement s k @ [length (heap s)..<length (heap s) + n])"
  "rng (generateEntities around spread (real n) k s) = sdrop (3 * n) (rng s)"
  using funpow_body_fields [where around = around and spread = spread and k = k and m = n and s = s] by (simp_all add: generateEntities_funpow)

lemma generateEntities_nonpositive: "count \<le> 0 \<Longrightarrow> generateEntities around spread count k s = s"
  by (simp add: generateEntities_def generateEntities_loop.simps)

lemma distance_polar:
  "0 \<le> d \<Longrightarrow> distance (fst c + cos t * d, snd c + sin t * d) c = d"
  using Math_hypot_polar [where d = d and t = t] by (simp add: distance_def Math_hypot_def power2_eq_square)

lemma cluster_entity_bounds:
  assumes draws: "\<forall>x \<in> sset r. 0 \<le> x \<and> x < 1" and spread: "0 < spread"
  shows "(let direction = r !! (3 * j) * pi * 2;
              d = r !! (3 * j + 1) * spread;
              speed = ENTITY_SPEED * (r !! (3 * j + 2) * 0.5 + 0.5);
              c = cluster_entity around spread k r j
          in 0 \<le> direction \<and> direction < 2 * pi \<and>
             0 \<le> d \<and> d < spread \<and>
             ENTITY_SPEED * 0.5 \<le> speed \<and> speed < ENTITY_SPEED * 1.0 \<and>
             pos c = (fst around + cos direction * d, snd around + sin direction * d) \<and>
             distance (pos c) around = d \<and>
             vel c = (cos direction * speed, sin direction * speed) \<and>
             Math_hypot (fst (vel c)) (snd (vel c)) = speed \<and>
             element c = k)"
proof -
  have u: "0 \<le> r !! i \<and> r !! i < 1" for i
    using draws snth_sset [of r i] by blast
  define d where "d = r !! (3 * j + 1) * spread"
  define speed where "speed = ENTITY_SPEED * (r !! (3 * j + 2) * 0.5 + 0.5)"
  have d0: "0 \<le> d" using u [of "3 * j + 1"] spread by (simp add: d_def)
  have d1: "d < spread" using u [of "3 * j + 1"] spread by (simp add: d_def)
  have s0: "ENTITY_SPEED * 0.5 \<le> speed" "speed < ENTITY_SPEED * 1.0"
    using u [of "3 * j + 2"] by (simp_all add: speed_def ENTITY_SPEED_def)
  then have s1: "0 \<le> speed" by (simp add: ENTITY_SPEED_def)
  have a: "0 \<le> r !! (3 * j) * pi * 2" "r !! (3 * j) * pi * 2 < 2 * pi"
    using u [of "3 * j"] by simp_all
  show ?thesis
    unfolding Let_def
    using a d0 d1 s0 distance_polar [OF d0] Math_hypot_polar [OF s1]
    by (simp add: cluster_entity_def Let_def d_def speed_def)
qed

lemma generateEntities_body_createEntity:
  "generateEntities_body around spread el s =
     (let direction = rng s !! 0 * pi * 2;
          d = rng s !! 1 * spread
      in createEntity (fst around + cos direction * d, snd around + sin direction * d) direction el
           (s\<lparr>rng := sdrop 2 (rng s)\<rparr>))"
proof -
  have two: "sdrop 2 r = stl (stl r)" "r !! 1 = shd (stl r)" for r :: "real stream"
    by (simp_all only: numeral_2_eq_2 One_nat_def sdrop.simps snth.simps)
  show ?thesis
    by (simp add: generateEntities_body_def Math_random_def Let_def two)
qed

lemma createEntity_speed:
  assumes "0 \<le> shd (rng s)" "shd (rng s) < 1"
  shows "ENTITY_SPEED * 0.5 \<le> ENTITY_SPEED * (shd (rng s) * 0.5 + 0.5)"
    "ENTITY_SPEED * (shd (rng s) * 0.5 + 0.5) \<le> ENTITY_SPEED * 1.0"
    "0 \<le> ENTITY_SPEED * (shd (rng s) * 0.5 + 0.5)"
  using assms by (simp_all add: ENTITY_SPEED_def)

subsection \<open>Double precision at the threshold\<close>
























section \<open>The claims\<close>

text \<open>
  C1. Partition invariant. In every state reached from the initial one by spawns, clusters,
  clicks and ticks the invariant holds; \<^verbatim>\<open>createEntity\<close>, \<^verbatim>\<open>changeEntityElement\<close> (on an
  entity of the canonical list) and \<^verbatim>\<open>update\<close> preserve it; and it says what the claim says:
  the three collections are pairwise disjoint, their union is the canonical list, an entity is
  in the collection of kind \<open>k\<close> exactly when its \<^verbatim>\<open>element\<close> field is \<open>k\<close>, and the three
  sizes add up to the size of the canonical list.
\<close>

theorem partition_invariant:
  "partition_inv (run evs (populate (init r))) \<and>
   (partition_inv s \<longrightarrow>
      partition_inv (createEntity p direction el s) \<and>
      (entity \<in> set (entities s) \<longrightarrow> partition_inv (changeEntityElement entity el s)) \<and>
      partition_inv (update s) \<and>
      set (entityByElement s Rock) \<inter> set (entityByElement s Paper) = {} \<and>
      set (entityByElement s Rock) \<inter> set (entityByElement s Scissors) = {} \<and>
      set (entityByElement s Paper) \<inter> set (entityByElement s Scissors) = {} \<and>
      set (entityByElement s Rock) \<union> set (entityByElement s Paper)
        \<union> set (entityByElement s Scissors) = set (entities s) \<and>
      (a \<in> set (entityByElement s k) \<longleftrightarrow> a \<in> set (entities s) \<and> element (heap s ! a) = k) \<and>
      length (entityByElement s Rock) + length (entityByElement s Paper)
        + length (entityByElement s Scissors) = length (entities s))"
proof (intro conjI impI)
  show "partition_inv (run evs (populate (init r)))"
    by (intro partition_inv_run partition_inv_populate partition_inv_init)
next
  assume inv: "partition_inv s"
  show "partition_inv (createEntity p direction el s)"
    using inv by (rule partition_inv_createEntity)
  show "partition_inv (update s)"
    using inv by (rule partition_inv_update)
  show "set (entityByElement s Rock) \<inter> set (entityByElement s Paper) = {}"
    using inv by (rule partition_inv_disjoint) simp
  show "set (entityByElement s Rock) \<inter> set (entityByElement s Scissors) = {}"
    using inv by (rule partition_inv_disjoint) simp
  show "set (entityByElement s Paper) \<inter> set (entityByElement s Scissors) = {}"
    using inv by (rule partition_inv_disjoint) simp
  show "set (entityByElement s Rock) \<union> set (entityByElement s Paper)
        \<union> set (entityByElement s Scissors) = set (entities s)"
    using inv by (rule partition_inv_cover)
  show "a \<in> set (entityByElement s k) \<longleftrightarrow> a \<in> set (entities s) \<and> element (heap s ! a) = k"
    using partition_inv_indexed [OF inv] by (rule indexed_mem)
  show "length (entityByElement s Rock) + length (entityByElement s Paper)
        + length (entityByElement s Scissors) = length (entities s)"
    using inv by (rule partition_inv_sizes)
  show "partition_inv (changeEntityElement entity el s)" if "entity \<in> set (entities s)"
    using inv that by (rule partition_inv_changeEntityElement)
qed

theorem partition_invariant_witness:
  "partition_inv duel \<and> 0 \<in> set (entities duel) \<and>
   partition_inv (createEntity (0, 0) 0 Rock duel) \<and>
   partition_inv (changeEntityElement 0 Scissors duel) \<and>
   partition_inv (update duel) \<and>
   length (entityByElement duel Rock) + length (entityByElement duel Paper)
     + length (entityByElement duel Scissors) = length (entities duel)"
proof -
  have mem: "0 \<in> set (entities duel)" by (simp add: duel_def)
  show ?thesis
    using partition_invariant [of "[]" "sconst 0" duel "(0, 0)" 0 Rock 0 0 Rock]
      partition_invariant [of "[]" "sconst 0" duel "(0, 0)" 0 Scissors 0 0 Rock]
      partition_inv_duel mem
    by simp
qed




text \<open>
  C3. Boundary containment. Whatever the position and the velocity of an entity, after
  \<^verbatim>\<open>updateEntity\<close> its position has \<open>ENTITY_SIZE \<le> x \<le> canvas_width - ENTITY_SIZE\<close> and
  \<open>ENTITY_SIZE \<le> y \<le> canvas_height - ENTITY_SIZE\<close>; after a whole \<^verbatim>\<open>update\<close> this holds of every
  entity of the canonical list.
\<close>

theorem boundary_containment:
  "in_arena (pos (moveEntity en)) \<and>
   (entity < length (heap s) \<longrightarrow>
      ENTITY_SIZE \<le> fst (pos (heap (updateEntity entity s) ! entity)) \<and>
      fst (pos (heap (updateEntity entity s) ! entity)) \<le> canvas_width - ENTITY_SIZE \<and>
      ENTITY_SIZE \<le> snd (pos (heap (updateEntity entity s) ! entity)) \<and>
      snd (pos (heap (updateEntity entity s) ! entity)) \<le> canvas_height - ENTITY_SIZE) \<and>
   (a \<in> set (entities s) \<and> a < length (heap s) \<longrightarrow> in_arena (pos (heap (update s) ! a)))"
proof (intro conjI impI)
  show "in_arena (pos (moveEntity en))" by (rule in_arena_moveEntity)
  show "in_arena (pos (heap (update s) ! a))" if "a \<in> set (entities s) \<and> a < length (heap s)"
    using that by (simp add: update_def in_arena_update_loop)
next
  assume "entity < length (heap s)"
  then have "in_arena (pos (heap (updateEntity entity s) ! entity))"
    by (simp add: self_updateEntity in_arena_moveEntity)
  then show "ENTITY_SIZE \<le> fst (pos (heap (updateEntity entity s) ! entity))"
    "fst (pos (heap (updateEntity entity s) ! entity)) \<le> canvas_width - ENTITY_SIZE"
    "ENTITY_SIZE \<le> snd (pos (heap (updateEntity entity s) ! entity))"
    "snd (pos (heap (updateEntity entity s) ! entity)) \<le> canvas_height - ENTITY_SIZE"
    by (simp_all add: in_arena_def)
qed

theorem boundary_containment_witness:
  "0 < length (heap (lone Rock)) \<and> 0 \<in> set (entities (lone Rock)) \<and>
   \<not> in_arena (pos (heap (lone Rock) ! 0)) \<and>
   10 \<le> fst (pos (heap (updateEntity 0 (lone Rock)) ! 0)) \<and>
   fst (pos (heap (updateEntity 0 (lone Rock)) ! 0)) \<le> 390 \<and>
   in_arena (pos (heap (update (lone Rock)) ! 0))"
proof -
  have h: "0 < length (heap (lone Rock))" "0 \<in> set (entities (lone Rock))"
    by (simp_all add: lone_def)
  have out: "\<not> in_arena (pos (heap (lone Rock) ! 0))"
    by (simp add: lone_def in_arena_def ENTITY_SIZE_def)
  show ?thesis
    using boundary_containment [where entity = 0 and s = "lone Rock" and a = 0] h out
    by (simp add: ENTITY_SIZE_def canvas_width_def)
qed

text \<open>
  C4. Reflection scenario. The arena is 400 by 400 and \<^verbatim>\<open>ENTITY_SIZE\<close> is 10; a single entity
  at \<open>(5, 200)\<close> with velocity \<open>(-1, 0)\<close> is, after one \<^verbatim>\<open>update\<close>, at \<open>(10, 200)\<close> with
  velocity \<open>(1, 0)\<close>: \<open>x\<close> is clamped to 10, the \<open>x\<close> velocity is 1, and the \<open>y\<close> components are
  as before.
\<close>

theorem reflection_scenario:
  "canvas_width = 400 \<and> canvas_height = 400 \<and> ENTITY_SIZE = 10 \<and>
   entities (lone k) = [0] \<and>
   pos (heap (lone k) ! 0) = (5, 200) \<and> vel (heap (lone k) ! 0) = (- 1, 0) \<and>
   pos (heap (update (lone k)) ! 0) = (10, 200) \<and> vel (heap (update (lone k)) ! 0) = (1, 0)"
  by (simp add: update_def lone_def updateEntity_def checkCollision_def enemyElement_neq
      moveEntity_def Let_def ENTITY_SIZE_def canvas_width_def canvas_height_def clamp_def)



text \<open>
  C6. Monotonic population. Over any sequence of spawns, clusters, clicks and frames the
  canonical list is only extended at its end, so its length never decreases; \<^verbatim>\<open>update\<close>
  leaves the canonical list as it is, the same references in the same order, and allocates
  no object; \<^verbatim>\<open>createEntity\<close> makes the list longer by exactly one.
\<close>

theorem monotonic_population:
  "length (entities s) \<le> length (entities (run evs s)) \<and>
   (\<exists>new. entities (run evs s) = entities s @ new) \<and>
   entities (update s) = entities s \<and>
   length (heap (update s)) = length (heap s) \<and>
   length (entities (createEntity p direction el s)) = length (entities s) + 1 \<and>
   length (heap (createEntity p direction el s)) = length (heap s) + 1"
  using length_entities_run [of s evs] entities_run [of evs s]
  by (simp add: entities_update length_heap_update entities_createEntity heap_createEntity)

text \<open>
  C7. Frame condition of collision resolution. \<^verbatim>\<open>checkCollision\<close>, and the
  \<^verbatim>\<open>changeEntityElement\<close> it may call, leave the position and the velocity of every entity as
  they are, and leave every entity other than the one resolved wholly unchanged; no object
  is allocated. \<^verbatim>\<open>updateEntity\<close> negates a velocity component exactly when the moved position
  is outside the arena on that axis, and otherwise keeps it; so over a whole \<^verbatim>\<open>update\<close> each
  velocity component keeps its absolute value.
\<close>

theorem collision_frame:
  "pos (heap (checkCollision entity s) ! a) = pos (heap s ! a) \<and>
   vel (heap (checkCollision entity s) ! a) = vel (heap s ! a) \<and>
   (a \<noteq> entity \<longrightarrow> heap (checkCollision entity s) ! a = heap s ! a) \<and>
   length (heap (checkCollision entity s)) = length (heap s) \<and>
   pos (heap (changeEntityElement entity el s) ! a) = pos (heap s ! a) \<and>
   vel (heap (changeEntityElement entity el s) ! a) = vel (heap s ! a) \<and>
   (a \<noteq> entity \<longrightarrow> heap (changeEntityElement entity el s) ! a = heap s ! a) \<and>
   fst (vel (moveEntity en)) =
     (if fst (pos en) + fst (vel en) < ENTITY_SIZE \<or>
         fst (pos en) + fst (vel en) > canvas_width - ENTITY_SIZE
      then - fst (vel en) else fst (vel en)) \<and>
   snd (vel (moveEntity en)) =
     (if snd (pos en) + snd (vel en) < ENTITY_SIZE \<or>
         snd (pos en) + snd (vel en) > canvas_height - ENTITY_SIZE
      then - snd (vel en) else snd (vel en)) \<and>
   \<bar>fst (vel (heap (update s) ! a))\<bar> = \<bar>fst (vel (heap s ! a))\<bar> \<and>
   \<bar>snd (vel (heap (update s) ! a))\<bar> = \<bar>snd (vel (heap s ! a))\<bar>"
proof -
  have "a \<noteq> entity \<longrightarrow> heap (checkCollision entity s) ! a = heap s ! a"
    by (simp add: other_checkCollision)
  moreover have "a \<noteq> entity \<longrightarrow> heap (changeEntityElement entity el s) ! a = heap s ! a"
    by (simp add: other_changeEntityElement)
  moreover have "fst (vel (moveEntity en)) =
     (if fst (pos en) + fst (vel en) < ENTITY_SIZE \<or>
         fst (pos en) + fst (vel en) > canvas_width - ENTITY_SIZE
      then - fst (vel en) else fst (vel en))"
    by (simp add: vel_moveEntity Let_def)
  moreover have "snd (vel (moveEntity en)) =
     (if snd (pos en) + snd (vel en) < ENTITY_SIZE \<or>
         snd (pos en) + snd (vel en) > canvas_height - ENTITY_SIZE
      then - snd (vel en) else snd (vel en))"
    by (simp add: vel_moveEntity Let_def)
  ultimately show ?thesis
    using abs_vel_update [of s a]
    by (simp only: pos_checkCollision vel_checkCollision length_heap_checkCollision
        pos_changeEntityElement vel_changeEntityElement simp_thms)
qed

theorem collision_frame_witness:
  "(1::nat) \<noteq> 0 \<and>
   element (heap (checkCollision 0 duel) ! 0) \<noteq> element (heap duel ! 0) \<and>
   pos (heap (checkCollision 0 duel) ! 0) = (100, 100) \<and>
   vel (heap (checkCollision 0 duel) ! 0) = (0, 0) \<and>
   heap (checkCollision 0 duel) ! 1 = \<lparr>pos = (101, 100), vel = (0, 0), element = Paper\<rparr>"
proof -
  have ne: "(1::nat) \<noteq> 0" by simp
  have changed: "element (heap (checkCollision 0 duel) ! 0) \<noteq> element (heap duel ! 0)"
    by (simp add: checkCollision_def duel_def enemyElement_def touching_def Math_hypot_less_iff
        ENTITY_SIZE_def heap_changeEntityElement)
  have p: "pos (heap duel ! 0) = (100, 100)" "vel (heap duel ! 0) = (0, 0)"
    "heap duel ! 1 = \<lparr>pos = (101, 100), vel = (0, 0), element = Paper\<rparr>"
    by (simp_all add: duel_def)
  show ?thesis
    using collision_frame [where entity = 0 and s = duel and a = 0]
      collision_frame [where entity = 0 and s = duel and a = 1] ne changed p
    by simp
qed

text \<open>
  C8. Spawner contract. The draws of \<^verbatim>\<open>Math.random\<close> are a stream of numbers in \<open>[0, 1)\<close>.
  \<^verbatim>\<open>createEntity\<close> consumes one draw \<open>u\<close> and allocates exactly one entity, at the given
  position, of the given kind, with velocity \<open>speed * (cos direction, sin direction)\<close> where
  \<open>speed = ENTITY_SPEED * (0.5 u + 0.5)\<close> lies between half of \<^verbatim>\<open>ENTITY_SPEED\<close> and
  \<^verbatim>\<open>ENTITY_SPEED\<close> and is the length of the velocity; the entity is put at the end of the
  canonical list and of the collection of its kind. \<^verbatim>\<open>generateEntities\<close> with a count \<open>n\<close>
  runs its loop body exactly \<open>n\<close> times; each round takes two draws of its own for the
  direction and the radial offset and calls \<^verbatim>\<open>createEntity\<close> with that direction, which takes a
  third; it adds exactly \<open>n\<close> entities, entity \<open>j\<close> being \<open>cluster_entity\<close> of round \<open>j\<close>, whose
  direction is in \<open>[0, 2 pi)\<close>, whose distance from the centre is the offset, in
  \<open>[0, spread)\<close> for a positive spread, and whose velocity points in the same direction.
  A count of 0 changes nothing.
\<close>

theorem spawner_contract:
  assumes "\<forall>x \<in> sset (rng s). 0 \<le> x \<and> x < 1" and "0 < spread"
  shows
    "(let speed = ENTITY_SPEED * (shd (rng s) * 0.5 + 0.5);
          s' = createEntity p direction el s
      in heap s' = heap s @ [\<lparr>pos = p,
                                vel = (cos direction * speed, sin direction * speed),
                                element = el\<rparr>] \<and>
         entities s' = entities s @ [length (heap s)] \<and>
         entityByElement s' = (entityByElement s)(el := entityByElement s el @ [length (heap s)]) \<and>
         rng s' = stl (rng s) \<and>
         ENTITY_SPEED * 0.5 \<le> speed \<and> speed \<le> ENTITY_SPEED * 1.0 \<and>
         Math_hypot (cos direction * speed) (sin direction * speed) = speed) \<and>
     generateEntities_body around spread el s =
       (let direction = rng s !! 0 * pi * 2;
            d = rng s !! 1 * spread
        in createEntity (fst around + cos direction * d, snd around + sin direction * d)
             direction el (s\<lparr>rng := sdrop 2 (rng s)\<rparr>)) \<and>
     (let s' = generateEntities around spread (real n) el s
      in s' = (generateEntities_body around spread el ^^ n) s \<and>
         heap s' = heap s @ map (cluster_entity around spread el (rng s)) [0..<n] \<and>
         entities s' = entities s @ [length (heap s)..<length (heap s) + n] \<and>
         entityByElement s' =
           (entityByElement s)(el := entityByElement s el @ [length (heap s)..<length (heap s) + n]) \<and>
         rng s' = sdrop (3 * n) (rng s)) \<and>
     (let direction = rng s !! (3 * j) * pi * 2;
          d = rng s !! (3 * j + 1) * spread;
          speed = ENTITY_SPEED * (rng s !! (3 * j + 2) * 0.5 + 0.5);
          c = cluster_entity around spread el (rng s) j
      in 0 \<le> direction \<and> direction < 2 * pi \<and>
         0 \<le> d \<and> d < spread \<and>
         ENTITY_SPEED * 0.5 \<le> speed \<and> speed < ENTITY_SPEED * 1.0 \<and>
         pos c = (fst around + cos direction * d, snd around + sin direction * d) \<and>
         distance (pos c) around = d \<and>
         vel c = (cos direction * speed, sin direction * speed) \<and>
         Math_hypot (fst (vel c)) (snd (vel c)) = speed \<and>
         element c = el) \<and>
     generateEntities around spread 0 el s = s"
proof -
  have u0: "0 \<le> shd (rng s)" "shd (rng s) < 1"
    using assms(1) shd_sset [of "rng s"] by auto
  have create: "(let speed = ENTITY_SPEED * (shd (rng s) * 0.5 + 0.5);
          s' = createEntity p direction el s
      in heap s' = heap s @ [\<lparr>pos = p,
                                vel = (cos direction * speed, sin direction * speed),
                                element = el\<rparr>] \<and>
         entities s' = entities s @ [length (heap s)] \<and>
         entityByElement s' = (entityByElement s)(el := entityByElement s el @ [length (heap s)]) \<and>
         rng s' = stl (rng s) \<and>
         ENTITY_SPEED * 0.5 \<le> speed \<and> speed \<le> ENTITY_SPEED * 1.0 \<and>
         Math_hypot (cos direction * speed) (sin direction * speed) = speed)"
    unfolding Let_def
    using createEntity_speed [OF u0] Math_hypot_polar [OF createEntity_speed(3) [OF u0]]
    by (simp only: heap_createEntity entities_createEntity entityByElement_createEntity
        rng_createEntity simp_thms)
  have cluster: "(let s' = generateEntities around spread (real n) el s
      in s' = (generateEntities_body around spread el ^^ n) s \<and>
         heap s' = heap s @ map (cluster_entity around spread el (rng s)) [0..<n] \<and>
         entities s' = entities s @ [length (heap s)..<length (heap s) + n] \<and>
         entityByElement s' =
           (entityByElement s)(el := entityByElement s el @ [length (heap s)..<length (heap s) + n]) \<and>
         rng s' = sdrop (3 * n) (rng s))"
    unfolding Let_def
    by (simp only: generateEntities_fields generateEntities_funpow [symmetric] simp_thms)
  have zero: "generateEntities around spread 0 el s = s"
    by (rule generateEntities_nonpositive) simp
  show ?thesis
    using create generateEntities_body_createEntity [of around spread el s] cluster
      cluster_entity_bounds [OF assms, of j around el] zero
    by (intro conjI)
qed

theorem spawner_contract_witness:
  "sset (rng (init (sconst (1 / 2)))) = {1 / 2} \<and> 0 < SPREAD \<and>
   entities (createEntity (5, 200) 0 Rock (init (sconst (1 / 2)))) = [0] \<and>
   heap (createEntity (5, 200) 0 Rock (init (sconst (1 / 2))))
     = [\<lparr>pos = (5, 200), vel = (3 / 4, 0), element = Rock\<rparr>] \<and>
   entities (generateEntities (100, 100) SPREAD (real 3) Paper (init (sconst (1 / 2)))) = [0, 1, 2] \<and>
   distance (pos (cluster_entity (100, 100) SPREAD Paper (sconst (1 / 2)) 1)) (100, 100) = 25"
proof -
  let ?s = "init (sconst (1 / 2))"
  have draws: "\<forall>x \<in> sset (rng ?s). 0 \<le> x \<and> x < 1" by (simp add: init_def)
  have spread: "0 < SPREAD" by (simp add: SPREAD_def)
  note c = spawner_contract [OF draws spread, where p = "(5, 200)" and direction = 0 and el = Rock]
  note g = spawner_contract [OF draws spread, where around = "(100, 100)" and n = 3 and el = Paper
      and j = 1]
  have 1: "entities (createEntity (5, 200) 0 Rock ?s) = [0]"
    using c [THEN conjunct1] by (simp add: Let_def init_def)
  have 2: "heap (createEntity (5, 200) 0 Rock ?s)
     = [\<lparr>pos = (5, 200), vel = (3 / 4, 0), element = Rock\<rparr>]"
    using c [THEN conjunct1] by (simp add: Let_def init_def ENTITY_SPEED_def)
  have 3: "entities (generateEntities (100, 100) SPREAD (real 3) Paper ?s) = [0, 1, 2]"
    using g [unfolded Let_def, THEN conjunct2, THEN conjunct2, THEN conjunct1,
        THEN conjunct2, THEN conjunct2, THEN conjunct1]
    by (simp add: init_def upt_rec numeral_2_eq_2)
  have 4: "distance (pos (cluster_entity (100, 100) SPREAD Paper (sconst (1 / 2)) 1)) (100, 100) = 25"
  proof -
    have "distance (pos (cluster_entity (100, 100) SPREAD Paper (rng ?s) 1)) (100, 100)
          = rng ?s !! (3 * 1 + 1) * SPREAD"
      using g [unfolded Let_def, THEN conjunct2, THEN conjunct2, THEN conjunct2, THEN conjunct1,
          THEN conjunct2, THEN conjunct2, THEN conjunct2, THEN conjunct2, THEN conjunct2,
          THEN conjunct2, THEN conjunct2, THEN conjunct1]
      by simp
    also have "rng ?s = sconst (1 / 2)" by (simp add: init_def)
    finally show ?thesis by (simp add: SPREAD_def)
  qed
  have 0: "sset (rng ?s) = {1 / 2}" by (simp add: init_def)
  show ?thesis using 0 spread 1 2 3 4 by blast
qed



text \<open>
  C10. \<^verbatim>\<open>update\<close> is deterministic. It consumes no draw of \<^verbatim>\<open>Math.random\<close>, and its result
  does not depend on the random source: two states with the same objects, the same canonical
  list and the same collections have, after \<^verbatim>\<open>update\<close>, the same objects, canonical list and
  collections, whatever their random sources are.
\<close>

theorem update_deterministic:
  "rng (update s) = rng s \<and>
   update (s\<lparr>rng := r\<rparr>) = (update s)\<lparr>rng := r\<rparr> \<and>
   (heap s1 = heap s2 \<and> entities s1 = entities s2 \<and> entityByElement s1 = entityByElement s2 \<longrightarrow>
      heap (update s1) = heap (update s2) \<and> entities (update s1) = entities (update s2) \<and>
      entityByElement (update s1) = entityByElement (update s2))"
proof (intro conjI impI)
  show "rng (update s) = rng s" by (rule rng_update)
  show "update (s\<lparr>rng := r\<rparr>) = (update s)\<lparr>rng := r\<rparr>" by (rule update_rng)
next
  assume "heap s1 = heap s2 \<and> entities s1 = entities s2 \<and> entityByElement s1 = entityByElement s2"
  then have "s2 = s1\<lparr>rng := rng s2\<rparr>" by simp
  then have eq: "update s2 = (update s1)\<lparr>rng := rng s2\<rparr>" using update_rng by metis
  show "heap (update s1) = heap (update s2)" "entities (update s1) = entities (update s2)"
    "entityByElement (update s1) = entityByElement (update s2)"
    by (simp_all add: eq)
qed

theorem update_deterministic_witness:
  "heap duel = heap (duel\<lparr>rng := sconst 1\<rparr>) \<and>
   entities duel = entities (duel\<lparr>rng := sconst 1\<rparr>) \<and>
   entityByElement duel = entityByElement (duel\<lparr>rng := sconst 1\<rparr>) \<and>
   rng duel \<noteq> rng (duel\<lparr>rng := sconst 1\<rparr>) \<and>
   heap (update duel) = heap (update (duel\<lparr>rng := sconst 1\<rparr>)) \<and>
   entityByElement (update duel) = entityByElement (update (duel\<lparr>rng := sconst 1\<rparr>))"
proof -
  have same: "heap duel = heap (duel\<lparr>rng := sconst 1\<rparr>) \<and>
      entities duel = entities (duel\<lparr>rng := sconst 1\<rparr>) \<and>
      entityByElement duel = entityByElement (duel\<lparr>rng := sconst 1\<rparr>)"
    by simp
  have "rng duel \<noteq> sconst 1"
  proof
    assume "rng duel = sconst 1"
    then have "shd (rng duel) = shd (sconst (1::real))" by (rule arg_cong)
    then show False by (simp add: duel_def)
  qed
  then have differ: "rng duel \<noteq> rng (duel\<lparr>rng := sconst 1\<rparr>)" by simp
  have after: "heap (update duel) = heap (update (duel\<lparr>rng := sconst 1\<rparr>)) \<and>
      entities (update duel) = entities (update (duel\<lparr>rng := sconst 1\<rparr>)) \<and>
      entityByElement (update duel) = entityByElement (update (duel\<lparr>rng := sconst 1\<rparr>))"
    using update_deterministic [where ?s1.0 = duel and ?s2.0 = "duel\<lparr>rng := sconst 1\<rparr>",
        THEN conjunct2, THEN conjunct2] same
    by (rule mp)
  show ?thesis using same differ after by blast
qed

end
